theory Spec2Isabelle
  imports Main "HOL-Library.Word"
begin

section \<open>Data model (internal/model/model.go)\<close>

text \<open>
  Go's \<open>int\<close> is a 64-bit two's complement integer on the platforms the server is built
  for: \<open>+\<close> wraps around and \<open>>\<close> compares signed values.
\<close>

type_synonym goint = "64 word"

record User =
  ID :: goint
  Name :: string
  Email :: string
  Role :: string

record Task =
  ID :: goint
  Title :: string
  Status :: string
  UserID :: goint

section \<open>The store (internal/store/store.go)\<close>

text \<open>
  The two slices of the \<open>Store\<close> struct, as lists of values. The mutex is left out of
  this value-level model: every operation below is one critical section.
\<close>

record Store =
  users :: "User list"
  tasks :: "Task list"

text \<open>The background work an operation starts with \<open>go s.persistAsync()\<close>.\<close>

datatype effect = Go_persistAsync

definition New :: Store where
  "New = \<lparr>users = [], tasks = []\<rparr>"

definition NewWithData :: "User list \<Rightarrow> Task list \<Rightarrow> Store" where
  "NewWithData us ts = \<lparr>users = us, tasks = ts\<rparr>"

text \<open>
  The loop \<open>for _, user := range s.users { if user.ID > maxID { maxID = user.ID } }\<close>,
  with the running \<open>maxID\<close> as accumulator.
\<close>

fun maxUserID :: "goint \<Rightarrow> User list \<Rightarrow> goint" where
  "maxUserID maxID [] = maxID"
| "maxUserID maxID (user # rest) =
     maxUserID (if maxID <s User.ID user then User.ID user else maxID) rest"

definition CreateUser :: "string \<Rightarrow> string \<Rightarrow> string \<Rightarrow> Store \<Rightarrow> User \<times> Store \<times> effect list" where
  "CreateUser name email role s =
     (let maxID = maxUserID 0 (users s);
          newUser = \<lparr>User.ID = maxID + 1, Name = name, Email = email, Role = role\<rparr>
      in (newUser, s\<lparr>users := users s @ [newUser]\<rparr>, [Go_persistAsync]))"

fun maxTaskID :: "goint \<Rightarrow> Task list \<Rightarrow> goint" where
  "maxTaskID maxID [] = maxID"
| "maxTaskID maxID (task # rest) =
     maxTaskID (if maxID <s Task.ID task then Task.ID task else maxID) rest"

definition CreateTask :: "string \<Rightarrow> string \<Rightarrow> goint \<Rightarrow> Store \<Rightarrow> Task \<times> Store \<times> effect list" where
  "CreateTask title status userID s =
     (let maxID = maxTaskID 0 (tasks s);
          newTask = \<lparr>Task.ID = maxID + 1, Title = title, Status = status, UserID = userID\<rparr>
      in (newTask, s\<lparr>tasks := tasks s @ [newTask]\<rparr>, [Go_persistAsync]))"

subsection \<open>Sequences of creation calls\<close>

datatype call =
  Call_CreateUser string string string
| Call_CreateTask string string goint

fun is_user_call :: "call \<Rightarrow> bool" where
  "is_user_call (Call_CreateUser _ _ _) = True"
| "is_user_call (Call_CreateTask _ _ _) = False"

text \<open>One call: the identifier it assigned and the store it leaves.\<close>

fun apply_call :: "call \<Rightarrow> Store \<Rightarrow> goint \<times> Store" where
  "apply_call (Call_CreateUser name email role) s =
     (case CreateUser name email role s of (u, s', _) \<Rightarrow> (User.ID u, s'))"
| "apply_call (Call_CreateTask title status userID) s =
     (case CreateTask title status userID s of (t, s', _) \<Rightarrow> (Task.ID t, s'))"

text \<open>
  The identifiers present in the collection a call works on.
\<close>

fun present_ids :: "call \<Rightarrow> Store \<Rightarrow> goint list" where
  "present_ids (Call_CreateUser _ _ _) s = map User.ID (users s)"
| "present_ids (Call_CreateTask _ _ _) s = map Task.ID (tasks s)"

text \<open>
  Running a sequence of calls; the log keeps, for each call, the store it ran on, the call
  and the identifier it assigned.
\<close>

fun run_calls :: "call list \<Rightarrow> Store \<Rightarrow> (Store \<times> call \<times> goint) list" where
  "run_calls [] s = []"
| "run_calls (c # cs) s =
     (case apply_call c s of (i, s') \<Rightarrow> (s, c, i) # run_calls cs s')"

definition assigned_user_ids :: "(Store \<times> call \<times> goint) list \<Rightarrow> goint list" where
  "assigned_user_ids lg = map (\<lambda>(s, c, i). i) (filter (\<lambda>(s, c, i). is_user_call c) lg)"

definition assigned_task_ids :: "(Store \<times> call \<times> goint) list \<Rightarrow> goint list" where
  "assigned_task_ids lg = map (\<lambda>(s, c, i). i) (filter (\<lambda>(s, c, i). \<not> is_user_call c) lg)"

text \<open>
  The largest identifier of a collection as a mathematical integer, with the loop's
  starting value 0 included: it is 0 for an empty collection and for one whose
  identifiers are all negative.
\<close>

definition top_id :: "goint list \<Rightarrow> int" where
  "top_id ids = Max (insert 0 (sint ` set ids))"

definition MaxInt :: int where
  "MaxInt = 2 ^ 63 - 1"

text \<open>
  The proviso under which no \<open>maxID + 1\<close> of a sequence of calls wraps around: each
  collection has room below the largest \<open>int\<close> for the calls that extend it.
\<close>

definition has_room :: "call list \<Rightarrow> Store \<Rightarrow> bool" where
  "has_room cs s \<longleftrightarrow>
     top_id (map User.ID (users s)) + int (length (filter is_user_call cs)) \<le> MaxInt \<and>
     top_id (map Task.ID (tasks s)) + int (length (filter (\<lambda>c. \<not> is_user_call c) cs)) \<le> MaxInt"

subsection \<open>Queries\<close>

text \<open>
  Go's \<open>strconv.Atoi\<close> (standard library) in base 10 for a 64-bit \<open>int\<close>: an optional
  sign, then at least one character, all of them decimal digits, and a value that fits the
  type; anything else is an error.
\<close>

definition is_digit :: "char \<Rightarrow> bool" where
  "is_digit ch \<longleftrightarrow> (48::nat) \<le> of_char ch \<and> of_char ch \<le> (57::nat)"

fun digits_value :: "nat \<Rightarrow> string \<Rightarrow> nat" where
  "digits_value n [] = n"
| "digits_value n (ch # rest) = digits_value (n * 10 + (of_char ch - 48)) rest"

definition Atoi :: "string \<Rightarrow> goint option" where
  "Atoi str =
     (case str of
        [] \<Rightarrow> None
      | c # cs \<Rightarrow>
          (let neg = (c = CHR ''-'');
               ds = (if c = CHR ''-'' \<or> c = CHR ''+'' then cs else str)
           in if ds = [] \<or> \<not> list_all is_digit ds then None
              else (let n = digits_value 0 ds
                    in if neg then (if n \<le> 2 ^ 63 then Some (- of_nat n) else None)
                       else (if n < 2 ^ 63 then Some (of_nat n) else None))))"

text \<open>
  The body of the loop of \<open>GetTasks\<close>, with the slice \<open>filtered\<close> as accumulator.
\<close>

fun GetTasks_loop :: "string \<Rightarrow> string \<Rightarrow> Task list \<Rightarrow> Task list \<Rightarrow> Task list" where
  "GetTasks_loop status userID filtered [] = filtered"
| "GetTasks_loop status userID filtered (task # rest) =
     (let matchStatus = (status = [] \<or> Status task = status);
          matchUserID =
            (if userID \<noteq> []
             then (case Atoi userID of Some id' \<Rightarrow> UserID task = id' | None \<Rightarrow> False)
             else True)
      in GetTasks_loop status userID
           (if matchStatus \<and> matchUserID then filtered @ [task] else filtered) rest)"

definition GetTasks :: "string \<Rightarrow> string \<Rightarrow> Store \<Rightarrow> Task list" where
  "GetTasks status userID s = GetTasks_loop status userID [] (tasks s)"

text \<open>
  The filters as the specification words them: a task matches a filter that is empty, a
  status filter equal to its status, and a user-id filter that parses to its user id.
\<close>

definition matches_status :: "string \<Rightarrow> Task \<Rightarrow> bool" where
  "matches_status status t \<longleftrightarrow> status = [] \<or> Status t = status"

definition matches_userID :: "string \<Rightarrow> Task \<Rightarrow> bool" where
  "matches_userID userID t \<longleftrightarrow> userID = [] \<or> Atoi userID = Some (UserID t)"

text \<open>
  The scan \<open>for i := range xs { if p(xs[i]) { return i } }\<close> shared by the lookups by
  identifier: the first index, counted from \<open>i\<close>, whose element satisfies \<open>p\<close>.
\<close>

fun index_where :: "('a \<Rightarrow> bool) \<Rightarrow> nat \<Rightarrow> 'a list \<Rightarrow> nat option" where
  "index_where p i [] = None"
| "index_where p i (x # rest) = (if p x then Some i else index_where p (Suc i) rest)"

subsection \<open>Update\<close>

text \<open>
  The three optional arguments are Go pointers; \<open>nil\<close> is \<open>None\<close>. The result is the task
  that the returned pointer designates when the call returns.
\<close>

definition UpdateTask ::
  "goint \<Rightarrow> string option \<Rightarrow> string option \<Rightarrow> goint option \<Rightarrow> Store
     \<Rightarrow> Task option \<times> Store \<times> effect list" where
  "UpdateTask id' title status userID s =
     (case index_where (\<lambda>t. Task.ID t = id') 0 (tasks s) of
        None \<Rightarrow> (None, s, [])
      | Some i \<Rightarrow>
          (let t0 = tasks s ! i;
               t1 = (case title of None \<Rightarrow> t0 | Some v \<Rightarrow> t0\<lparr>Title := v\<rparr>);
               t2 = (case status of None \<Rightarrow> t1 | Some v \<Rightarrow> t1\<lparr>Status := v\<rparr>);
               t3 = (case userID of None \<Rightarrow> t2 | Some v \<Rightarrow> t2\<lparr>UserID := v\<rparr>)
           in (Some t3, s\<lparr>tasks := (tasks s)[i := t3]\<rparr>, [Go_persistAsync])))"

subsection \<open>Statistics\<close>

text \<open>
  The counters are Go \<open>int\<close>s that never exceed \<open>len(s.tasks)\<close>, itself an \<open>int\<close>, so
  they cannot wrap around and are modelled as integers.
\<close>

record StatsResponse =
  Users_Total :: int
  Tasks_Total :: int
  Tasks_Pending :: int
  Tasks_InProgress :: int
  Tasks_Completed :: int

fun GetStats_loop :: "StatsResponse \<Rightarrow> Task list \<Rightarrow> StatsResponse" where
  "GetStats_loop stats [] = stats"
| "GetStats_loop stats (task # rest) =
     GetStats_loop
       (if Status task = ''pending'' then stats\<lparr>Tasks_Pending := Tasks_Pending stats + 1\<rparr>
        else if Status task = ''in-progress'' then stats\<lparr>Tasks_InProgress := Tasks_InProgress stats + 1\<rparr>
        else if Status task = ''completed'' then stats\<lparr>Tasks_Completed := Tasks_Completed stats + 1\<rparr>
        else stats)
       rest"

definition GetStats :: "Store \<Rightarrow> StatsResponse" where
  "GetStats s =
     GetStats_loop
       \<lparr>Users_Total = int (length (users s)), Tasks_Total = int (length (tasks s)),
        Tasks_Pending = 0, Tasks_InProgress = 0, Tasks_Completed = 0\<rparr>
       (tasks s)"

definition valid_status :: "string \<Rightarrow> bool" where
  "valid_status st \<longleftrightarrow> st = ''pending'' \<or> st = ''in-progress'' \<or> st = ''completed''"

definition count_status :: "string \<Rightarrow> Task list \<Rightarrow> int" where
  "count_status st ts = int (length (filter (\<lambda>t. Status t = st) ts))"

section \<open>Persistence (internal/store/persistence.go)\<close>

record PersistentData =
  Users :: "User list"
  Tasks :: "Task list"

text \<open>
  What the file system answers to \<open>LoadData\<close>: whether \<open>os.Stat\<close> reports that the file
  does not exist, and what \<open>os.ReadFile\<close> returns (\<open>None\<close> when it fails). The decoder
  \<open>json.Unmarshal\<close> is a parameter: \<open>None\<close> is a parse error.
\<close>

record file_view =
  stat_not_exist :: bool
  read_file :: "string option"

datatype load_error = ReadFailed | ParseFailed

definition LoadData :: "(string \<Rightarrow> PersistentData option) \<Rightarrow> file_view \<Rightarrow> load_error + PersistentData" where
  "LoadData unmarshal fv =
     (if stat_not_exist fv then Inr \<lparr>Users = [], Tasks = []\<rparr>
      else (case read_file fv of
              None \<Rightarrow> Inl ReadFailed
            | Some data \<Rightarrow>
                (case unmarshal data of
                   None \<Rightarrow> Inl ParseFailed
                 | Some persistentData \<Rightarrow> Inr persistentData)))"

definition defaultStore :: Store where
  "defaultStore =
     NewWithData
       [\<lparr>User.ID = 1, Name = ''John Doe'', Email = ''john@example.com'', Role = ''developer''\<rparr>,
        \<lparr>User.ID = 2, Name = ''Jane Smith'', Email = ''jane@example.com'', Role = ''designer''\<rparr>,
        \<lparr>User.ID = 3, Name = ''Bob Johnson'', Email = ''bob@example.com'', Role = ''manager''\<rparr>]
       [\<lparr>Task.ID = 1, Title = ''Implement authentication'', Status = ''pending'', UserID = 1\<rparr>,
        \<lparr>Task.ID = 2, Title = ''Design user interface'', Status = ''in-progress'', UserID = 2\<rparr>,
        \<lparr>Task.ID = 3, Title = ''Review code changes'', Status = ''completed'', UserID = 3\<rparr>]"

definition Initialize :: "(string \<Rightarrow> PersistentData option) \<Rightarrow> file_view \<Rightarrow> Store" where
  "Initialize unmarshal fv =
     (case LoadData unmarshal fv of
        Inl err \<Rightarrow> defaultStore
      | Inr persistentData \<Rightarrow>
          if length (Users persistentData) = 0 \<and> length (Tasks persistentData) = 0
          then defaultStore
          else NewWithData (Users persistentData) (Tasks persistentData))"

subsection \<open>Saving: the order of lock operations and file operations\<close>

text \<open>
  \<open>Persist\<close> and \<open>SaveData\<close> as the sequence of events one call performs. The outcome of
  each fallible step is an input.
\<close>

datatype event =
  RLock
| RUnlock
| MkdirAll
| MarshalIndent PersistentData
| WriteFile PersistentData
| Rename
| Remove
| LogWarning

record save_outcome =
  mkdir_ok :: bool
  marshal_ok :: bool
  write_ok :: bool
  rename_ok :: bool

datatype save_error = MkdirFailed | MarshalFailed | WriteFailed | RenameFailed

definition SaveData :: "save_outcome \<Rightarrow> PersistentData \<Rightarrow> save_error option \<times> event list" where
  "SaveData oc data =
     (if \<not> mkdir_ok oc then (Some MkdirFailed, [MkdirAll])
      else if \<not> marshal_ok oc then (Some MarshalFailed, [MkdirAll, MarshalIndent data])
      else if \<not> write_ok oc then
        (Some WriteFailed, [MkdirAll, MarshalIndent data, WriteFile data])
      else if \<not> rename_ok oc then
        (Some RenameFailed, [MkdirAll, MarshalIndent data, WriteFile data, Rename, Remove])
      else (None, [MkdirAll, MarshalIndent data, WriteFile data, Rename]))"

text \<open>
  \<open>s.mu.RLock(); defer s.mu.RUnlock(); ...; return SaveData(data)\<close>: the deferred
  unlock runs when the function returns, after \<open>SaveData\<close> has.
\<close>

definition Persist :: "save_outcome \<Rightarrow> Store \<Rightarrow> save_error option \<times> event list" where
  "Persist oc s =
     (let data = \<lparr>Users = users s, Tasks = tasks s\<rparr>
      in (case SaveData oc data of (err, evs) \<Rightarrow> (err, [RLock] @ evs @ [RUnlock])))"

definition persistAsync :: "save_outcome \<Rightarrow> Store \<Rightarrow> event list" where
  "persistAsync oc s =
     (case Persist oc s of
        (None, evs) \<Rightarrow> evs
      | (Some err, evs) \<Rightarrow> evs @ [LogWarning])"

fun is_file_io :: "event \<Rightarrow> bool" where
  "is_file_io MkdirAll = True"
| "is_file_io (WriteFile _) = True"
| "is_file_io Rename = True"
| "is_file_io Remove = True"
| "is_file_io _ = False"

text \<open>
  Scanning a sequence of events with the number of read locks this goroutine holds:
  \<open>io_while_locked\<close> says that some file operation happens while it holds the lock,
  \<open>io_only_locked\<close> that every file operation does.
\<close>

fun io_while_locked :: "nat \<Rightarrow> event list \<Rightarrow> bool" where
  "io_while_locked held [] = False"
| "io_while_locked held (RLock # es) = io_while_locked (Suc held) es"
| "io_while_locked held (RUnlock # es) = io_while_locked (held - 1) es"
| "io_while_locked held (e # es) = ((is_file_io e \<and> 0 < held) \<or> io_while_locked held es)"

fun io_only_locked :: "nat \<Rightarrow> event list \<Rightarrow> bool" where
  "io_only_locked held [] = True"
| "io_only_locked held (RLock # es) = io_only_locked (Suc held) es"
| "io_only_locked held (RUnlock # es) = io_only_locked (held - 1) es"
| "io_only_locked held (e # es) = ((is_file_io e \<longrightarrow> 0 < held) \<and> io_only_locked held es)"

section \<open>References returned by the read operations\<close>

text \<open>
  A Go slice is a header (backing array, length) and several headers can share one array;
  \<open>&s.users[i]\<close> is a pointer into the array. To follow what a caller can do with a
  returned value, the arrays live in a heap and the \<open>Store\<close> struct holds two headers.
\<close>

type_synonym addr = nat

record slice =
  array :: addr
  len :: nat

record heap =
  user_arrays :: "addr \<Rightarrow> User list"
  task_arrays :: "addr \<Rightarrow> Task list"

record StoreRef =
  users_hdr :: slice
  tasks_hdr :: slice

datatype ptr = Ptr addr nat

definition user_elems :: "heap \<Rightarrow> slice \<Rightarrow> User list" where
  "user_elems h sl = take (len sl) (user_arrays h (array sl))"

definition task_elems :: "heap \<Rightarrow> slice \<Rightarrow> Task list" where
  "task_elems h sl = take (len sl) (task_arrays h (array sl))"

text \<open>The value-level store that a heap and the two headers stand for.\<close>

definition store_of :: "heap \<Rightarrow> StoreRef \<Rightarrow> Store" where
  "store_of h r = \<lparr>users = user_elems h (users_hdr r), tasks = task_elems h (tasks_hdr r)\<rparr>"

text \<open>\<open>return s.users\<close>: the header itself, on the same backing array.\<close>

definition GetUsers :: "StoreRef \<Rightarrow> slice" where
  "GetUsers r = users_hdr r"

text \<open>\<open>return &s.users[i]\<close> for the first index with the identifier, \<open>nil\<close> otherwise.\<close>

definition GetUserByID :: "heap \<Rightarrow> StoreRef \<Rightarrow> goint \<Rightarrow> ptr option" where
  "GetUserByID h r id' =
     (case index_where (\<lambda>u. User.ID u = id') 0 (user_elems h (users_hdr r)) of
        None \<Rightarrow> None
      | Some i \<Rightarrow> Some (Ptr (array (users_hdr r)) i))"

definition GetTaskByID :: "heap \<Rightarrow> StoreRef \<Rightarrow> goint \<Rightarrow> ptr option" where
  "GetTaskByID h r id' =
     (case index_where (\<lambda>t. Task.ID t = id') 0 (task_elems h (tasks_hdr r)) of
        None \<Rightarrow> None
      | Some i \<Rightarrow> Some (Ptr (array (tasks_hdr r)) i))"

text \<open>
  What a caller can do with the results: assign through a pointer (\<open>*p = v\<close>) and assign
  to an element of a slice (\<open>sl[i] = v\<close>, which panics out of range: \<open>None\<close>).
\<close>

fun assign_user :: "ptr \<Rightarrow> User \<Rightarrow> heap \<Rightarrow> heap" where
  "assign_user (Ptr a i) v h = h\<lparr>user_arrays := (user_arrays h)(a := (user_arrays h a)[i := v])\<rparr>"

fun assign_task :: "ptr \<Rightarrow> Task \<Rightarrow> heap \<Rightarrow> heap" where
  "assign_task (Ptr a i) v h = h\<lparr>task_arrays := (task_arrays h)(a := (task_arrays h a)[i := v])\<rparr>"

definition assign_user_elem :: "slice \<Rightarrow> nat \<Rightarrow> User \<Rightarrow> heap \<Rightarrow> heap option" where
  "assign_user_elem sl i v h =
     (if i < len sl then Some (assign_user (Ptr (array sl) i) v h) else None)"

fun ptr_index :: "ptr \<Rightarrow> nat" where
  "ptr_index (Ptr a i) = i"

text \<open>
  A small heap for the examples: the users' backing array at address 0 holds the first
  seed user, and the store's header covers it.
\<close>

definition example_heap :: heap where
  "example_heap =
     \<lparr>user_arrays = (\<lambda>a. [])(0 :=
        [\<lparr>User.ID = 1, Name = ''John Doe'', Email = ''john@example.com'', Role = ''developer''\<rparr>]),
      task_arrays = (\<lambda>a. [])(0 :=
        [\<lparr>Task.ID = 1, Title = ''Implement authentication'', Status = ''pending'', UserID = 1\<rparr>])\<rparr>"

definition example_ref :: StoreRef where
  "example_ref = \<lparr>users_hdr = \<lparr>array = 0, len = 1\<rparr>, tasks_hdr = \<lparr>array = 0, len = 1\<rparr>\<rparr>"

section \<open>The cache (package cache)\<close>

text \<open>
  An instant (\<open>time.Time\<close>) and a duration (\<open>time.Duration\<close>) are integers, in
  nanoseconds on one clock, and the reading of \<open>time.Now()\<close> is an argument of each
  operation: \<open>t.Add(d)\<close> is \<open>t + d\<close> and \<open>t.After(u)\<close> is \<open>u < t\<close>. The two counters are
  \<open>atomic.Int64\<close>. The mutex is left out: each operation is one critical section.
\<close>

record 'v Entry =
  Data :: 'v
  ExpiresAt :: int

record 'v Cache =
  entries :: "string \<Rightarrow> 'v Entry option"
  ttl :: int
  hits :: "64 word"
  misses :: "64 word"

text \<open>The background work \<open>New\<close> starts with \<open>go c.cleanupExpired()\<close>.\<close>

datatype cache_effect = Go_cleanupExpired

definition Cache_New :: "int \<Rightarrow> 'v Cache \<times> cache_effect list" where
  "Cache_New ttl' =
     (\<lparr>entries = (\<lambda>key. None), ttl = ttl', hits = 0, misses = 0\<rparr>, [Go_cleanupExpired])"

text \<open>
  \<open>Get\<close> returns a pair: \<open>(nil, false)\<close> is \<open>(None, False)\<close> and \<open>(entry.Data, true)\<close> is
  \<open>(Some (Data entry), True)\<close>.
\<close>

definition Cache_Get :: "int \<Rightarrow> string \<Rightarrow> 'v Cache \<Rightarrow> ('v option \<times> bool) \<times> 'v Cache" where
  "Cache_Get now key c =
     (case entries c key of
        None \<Rightarrow> ((None, False), c\<lparr>misses := misses c + 1\<rparr>)
      | Some entry \<Rightarrow>
          if now > ExpiresAt entry then ((None, False), c\<lparr>misses := misses c + 1\<rparr>)
          else ((Some (Data entry), True), c\<lparr>hits := hits c + 1\<rparr>))"

definition Cache_Set :: "int \<Rightarrow> string \<Rightarrow> 'v \<Rightarrow> 'v Cache \<Rightarrow> 'v Cache" where
  "Cache_Set now key data c =
     c\<lparr>entries := (entries c)(key := Some \<lparr>Data = data, ExpiresAt = now + ttl c\<rparr>)\<rparr>"

text \<open>
  \<open>cleanupExpired\<close> loops over the ticks of its ticker for as long as the process runs.
  Its state after the ticks received so far, given the reading of \<open>time.Now()\<close> at each:
  every tick deletes the entries that have expired by then.
\<close>

fun cleanupExpired :: "int list \<Rightarrow> 'v Cache \<Rightarrow> 'v Cache" where
  "cleanupExpired [] c = c"
| "cleanupExpired (now # ticks) c =
     cleanupExpired ticks
       (c\<lparr>entries := (\<lambda>key. case entries c key of
                               None \<Rightarrow> None
                             | Some entry \<Rightarrow>
                                 if now > ExpiresAt entry then None else Some entry)\<rparr>)"


section \<open>Identifier assignment\<close>

lemma sint_succ: "sint (x::goint) < MaxInt \<Longrightarrow> sint (x + 1) = sint x + 1"
proof -
  assume a: "sint x < MaxInt"
  have lo: "- (2 ^ 63) \<le> sint x" using sint_ge [of x] by simp
  have "sint (x + 1) = signed_take_bit 63 (sint x + 1)"
    by (simp add: sint_word_ariths)
  also have "\<dots> = sint x + 1"
    using a lo by (intro signed_take_bit_int_eq_self) (simp_all add: MaxInt_def)
  finally show ?thesis .
qed

lemma top_id_Nil: "top_id [] = 0"
  by (simp add: top_id_def)

lemma top_id_ge0: "0 \<le> top_id ids"
  by (simp add: top_id_def)

lemma top_id_snoc: "top_id (ids @ [i]) = max (top_id ids) (sint i)"
proof -
  have "top_id (ids @ [i]) = Max (insert (sint i) (insert 0 (sint ` set ids)))"
    by (simp add: top_id_def insert_commute)
  also have "\<dots> = max (sint i) (Max (insert 0 (sint ` set ids)))"
    by (rule Max_insert) simp_all
  finally show ?thesis by (simp add: top_id_def max.commute)
qed

lemma top_id_ge: "i \<in> set ids \<Longrightarrow> sint i \<le> top_id ids"
  by (simp add: top_id_def)

lemma top_id_nonneg_Max:
  assumes "j \<in> set ids" and "0 \<le> sint j"
  shows "top_id ids = Max (sint ` set ids)"
proof -
  have ne: "sint ` set ids \<noteq> {}" using assms(1) by auto
  have "sint j \<le> Max (sint ` set ids)" using assms(1) by simp
  with assms(2) have "0 \<le> Max (sint ` set ids)" by linarith
  moreover have "Max (insert 0 (sint ` set ids)) = max 0 (Max (sint ` set ids))"
    using ne by (intro Max_insert) simp_all
  ultimately show ?thesis by (simp add: top_id_def)
qed

text \<open>The running maximum over a list of identifiers, started at \<open>m\<close>.\<close>

lemma Max_insert2_int: "finite S \<Longrightarrow> Max (insert (a::int) (insert b S)) = max a (Max (insert b S))"
  by (rule Max_insert) simp_all

lemma maxUserID_sint:
  "sint (maxUserID m us) = Max (insert (sint m) (sint ` set (map User.ID us)))"
proof (induction us arbitrary: m)
  case Nil
  show ?case by simp
next
  case (Cons u us)
  have fin: "finite (sint ` User.ID ` set us)" by simp
  have e1: "Max (insert (sint m) (insert (sint (User.ID u)) (sint ` User.ID ` set us)))
      = max (sint m) (Max (insert (sint (User.ID u)) (sint ` User.ID ` set us)))"
    using fin by (rule Max_insert2_int)
  show ?case
  proof (cases "sint ` User.ID ` set us = {}")
    case True
    then show ?thesis by (auto simp: word_sless_alt max_def)
  next
    case ne: False
    have e2: "Max (insert x (sint ` User.ID ` set us)) = max x (Max (sint ` User.ID ` set us))" for x
      using fin ne by (rule Max_insert)
    show ?thesis
    proof (cases "m <s User.ID u")
      case True
      then have "sint m < sint (User.ID u)" by (simp add: word_sless_alt)
      with True Cons.IH [of "User.ID u"] show ?thesis by (simp add: e1 e2 max_def)
    next
      case False
      then have "sint (User.ID u) \<le> sint m" by (simp add: word_sless_alt)
      with False Cons.IH [of m] show ?thesis by (simp add: e1 e2 max_def)
    qed
  qed
qed

lemma maxTaskID_sint:
  "sint (maxTaskID m ts) = Max (insert (sint m) (sint ` set (map Task.ID ts)))"
proof (induction ts arbitrary: m)
  case Nil
  show ?case by simp
next
  case (Cons u us)
  have fin: "finite (sint ` Task.ID ` set us)" by simp
  have e1: "Max (insert (sint m) (insert (sint (Task.ID u)) (sint ` Task.ID ` set us)))
      = max (sint m) (Max (insert (sint (Task.ID u)) (sint ` Task.ID ` set us)))"
    using fin by (rule Max_insert2_int)
  show ?case
  proof (cases "sint ` Task.ID ` set us = {}")
    case True
    then show ?thesis by (auto simp: word_sless_alt max_def)
  next
    case ne: False
    have e2: "Max (insert x (sint ` Task.ID ` set us)) = max x (Max (sint ` Task.ID ` set us))" for x
      using fin ne by (rule Max_insert)
    show ?thesis
    proof (cases "m <s Task.ID u")
      case True
      then have "sint m < sint (Task.ID u)" by (simp add: word_sless_alt)
      with True Cons.IH [of "Task.ID u"] show ?thesis by (simp add: e1 e2 max_def)
    next
      case False
      then have "sint (Task.ID u) \<le> sint m" by (simp add: word_sless_alt)
      with False Cons.IH [of m] show ?thesis by (simp add: e1 e2 max_def)
    qed
  qed
qed

lemma maxUserID_top: "sint (maxUserID 0 us) = top_id (map User.ID us)"
  by (simp add: maxUserID_sint top_id_def)

lemma maxTaskID_top: "sint (maxTaskID 0 ts) = top_id (map Task.ID ts)"
  by (simp add: maxTaskID_sint top_id_def)

text \<open>One call, when the collection's largest identifier is below the largest \<open>int\<close>.\<close>

lemma apply_call_step:
  assumes room: "top_id (present_ids c s) < MaxInt"
    and ap: "apply_call c s = (i, s')"
  shows "sint i = top_id (present_ids c s) + 1"
    and "present_ids c s' = present_ids c s @ [i]"
    and "is_user_call c \<Longrightarrow> tasks s' = tasks s"
    and "\<not> is_user_call c \<Longrightarrow> users s' = users s"
proof -
  show "sint i = top_id (present_ids c s) + 1"
  proof (cases c)
    case (Call_CreateUser n e r)
    with room have "sint (maxUserID 0 (users s)) < MaxInt" by (simp add: maxUserID_top)
    from sint_succ [OF this] ap Call_CreateUser show ?thesis
      by (auto simp: CreateUser_def Let_def maxUserID_top)
  next
    case (Call_CreateTask t st u)
    with room have "sint (maxTaskID 0 (tasks s)) < MaxInt" by (simp add: maxTaskID_top)
    from sint_succ [OF this] ap Call_CreateTask show ?thesis
      by (auto simp: CreateTask_def Let_def maxTaskID_top)
  qed
  show "present_ids c s' = present_ids c s @ [i]"
    using ap by (cases c) (auto simp: CreateUser_def CreateTask_def Let_def)
  show "is_user_call c \<Longrightarrow> tasks s' = tasks s"
    using ap by (cases c) (auto simp: CreateUser_def Let_def)
  show "\<not> is_user_call c \<Longrightarrow> users s' = users s"
    using ap by (cases c) (auto simp: CreateTask_def Let_def)
qed

lemma present_ids_kind:
  "is_user_call c \<Longrightarrow> present_ids c s = map User.ID (users s)"
  "\<not> is_user_call c \<Longrightarrow> present_ids c s = map Task.ID (tasks s)"
  by (cases c; simp)+

lemma has_room_head:
  assumes "has_room (c # cs) s"
  shows "top_id (present_ids c s) < MaxInt"
  using assms by (cases c) (auto simp: has_room_def)

lemma has_room_tail:
  assumes hr: "has_room (c # cs) s" and ap: "apply_call c s = (i, s')"
  shows "has_room cs s'"
proof -
  note st = apply_call_step [OF has_room_head [OF hr] ap]
  show ?thesis
  proof (cases "is_user_call c")
    case True
    have "map User.ID (users s') = map User.ID (users s) @ [i]"
      using st(2) True by (simp add: present_ids_kind)
    moreover have "sint i = top_id (map User.ID (users s)) + 1"
      using st(1) True by (simp add: present_ids_kind)
    ultimately have "top_id (map User.ID (users s')) = top_id (map User.ID (users s)) + 1"
      by (simp add: top_id_snoc)
    with hr True st(3) show ?thesis by (simp add: has_room_def)
  next
    case False
    have "map Task.ID (tasks s') = map Task.ID (tasks s) @ [i]"
      using st(2) False by (simp add: present_ids_kind)
    moreover have "sint i = top_id (map Task.ID (tasks s)) + 1"
      using st(1) False by (simp add: present_ids_kind)
    ultimately have "top_id (map Task.ID (tasks s')) = top_id (map Task.ID (tasks s)) + 1"
      by (simp add: top_id_snoc)
    with hr False st(4) show ?thesis by (simp add: has_room_def)
  qed
qed

text \<open>Every call of the run finds room, and assigns above everything its collection held at the start.\<close>

lemma run_calls_entries:
  assumes "has_room cs s" and "(s0, c, i) \<in> set (run_calls cs s)"
  shows "top_id (present_ids c s0) < MaxInt \<and> apply_call c s0 = (i, snd (apply_call c s0))
         \<and> top_id (present_ids c s) < sint i"
  using assms
proof (induction cs arbitrary: s)
  case Nil
  then show ?case by simp
next
  case (Cons d cs)
  obtain j s' where ap: "apply_call d s = (j, s')" by (cases "apply_call d s")
  note hd = has_room_head [OF Cons.prems(1)]
  note st = apply_call_step [OF hd ap]
  from Cons.prems(2) ap have "(s0, c, i) = (s, d, j) \<or> (s0, c, i) \<in> set (run_calls cs s')"
    by simp
  then show ?case
  proof
    assume "(s0, c, i) = (s, d, j)"
    with hd ap st(1) show ?thesis by simp
  next
    assume mem: "(s0, c, i) \<in> set (run_calls cs s')"
    from Cons.IH [OF has_room_tail [OF Cons.prems(1) ap] mem]
    have ih: "top_id (present_ids c s0) < MaxInt" "apply_call c s0 = (i, snd (apply_call c s0))"
      "top_id (present_ids c s') < sint i" by simp_all
    have "top_id (present_ids c s) \<le> top_id (present_ids c s')"
    proof (cases "is_user_call c = is_user_call d")
      case True
      then have "present_ids c s' = present_ids c s @ [j]"
        using st(2) by (cases "is_user_call c") (simp_all add: present_ids_kind)
      then show ?thesis by (simp add: top_id_snoc)
    next
      case False
      then have "present_ids c s' = present_ids c s"
        using st(3,4) by (cases "is_user_call c") (simp_all add: present_ids_kind)
      then show ?thesis by simp
    qed
    with ih show ?thesis by simp
  qed
qed

lemma assigned_user_ids_Cons:
  "assigned_user_ids ((s, c, i) # lg) =
     (if is_user_call c then i # assigned_user_ids lg else assigned_user_ids lg)"
  by (simp add: assigned_user_ids_def)

lemma assigned_task_ids_Cons:
  "assigned_task_ids ((s, c, i) # lg) =
     (if is_user_call c then assigned_task_ids lg else i # assigned_task_ids lg)"
  by (simp add: assigned_task_ids_def)

lemma assigned_user_ids_mem:
  "i \<in> set (assigned_user_ids lg) \<Longrightarrow> \<exists>s0 c. (s0, c, i) \<in> set lg \<and> is_user_call c"
  by (auto simp: assigned_user_ids_def)

lemma assigned_task_ids_mem:
  "i \<in> set (assigned_task_ids lg) \<Longrightarrow> \<exists>s0 c. (s0, c, i) \<in> set lg \<and> \<not> is_user_call c"
  by (auto simp: assigned_task_ids_def)

lemma run_calls_sorted:
  assumes "has_room cs s"
  shows "sorted_wrt (<s) (assigned_user_ids (run_calls cs s))
       \<and> sorted_wrt (<s) (assigned_task_ids (run_calls cs s))"
  using assms
proof (induction cs arbitrary: s)
  case Nil
  then show ?case by (simp add: assigned_user_ids_def assigned_task_ids_def)
next
  case (Cons d cs)
  obtain j s' where ap: "apply_call d s = (j, s')" by (cases "apply_call d s")
  note hd = has_room_head [OF Cons.prems]
  note st = apply_call_step [OF hd ap]
  note tl = has_room_tail [OF Cons.prems ap]
  note ih = Cons.IH [OF tl]
  have above: "j <s i" if mem: "(s0, c, i) \<in> set (run_calls cs s')"
    and kind: "is_user_call c = is_user_call d" for s0 c i
  proof -
    have "top_id (present_ids c s') < sint i"
      using run_calls_entries [OF tl mem] by simp
    moreover have "present_ids c s' = present_ids d s'"
      using kind by (cases "is_user_call c") (simp_all add: present_ids_kind)
    moreover have "sint j \<le> top_id (present_ids d s')"
      using st(2) by (intro top_id_ge) simp
    ultimately show ?thesis by (simp add: word_sless_alt)
  qed
  show ?case
  proof (cases "is_user_call d")
    case True
    have "\<forall>i \<in> set (assigned_user_ids (run_calls cs s')). j <s i"
      using above True by (auto dest!: assigned_user_ids_mem)
    with ih True ap show ?thesis
      by (simp add: assigned_user_ids_Cons assigned_task_ids_Cons)
  next
    case False
    have "\<forall>i \<in> set (assigned_task_ids (run_calls cs s')). j <s i"
      using above False by (auto dest!: assigned_task_ids_mem)
    with ih False ap show ?thesis
      by (simp add: assigned_user_ids_Cons assigned_task_ids_Cons)
  qed
qed

text \<open>
  Claim C1, as the code has it. For every sequence of \<open>CreateUser\<close> and \<open>CreateTask\<close>
  calls on a store whose collections have room below the largest \<open>int\<close>: each call
  assigns the largest identifier present in its collection, or 0 if that is larger, plus
  one; so 1 on an empty collection, the maximum plus one as soon as some identifier is
  not negative, and always above every identifier present. Within each collection the
  identifiers assigned are strictly increasing, hence never reused.
\<close>

theorem create_ids_sequence:
  assumes "has_room cs s"
  shows "(\<forall>(s0, c, i) \<in> set (run_calls cs s).
            fst (apply_call c s0) = i
          \<and> sint i = top_id (present_ids c s0) + 1
          \<and> (present_ids c s0 = [] \<longrightarrow> i = 1)
          \<and> ((\<exists>j \<in> set (present_ids c s0). 0 \<le> sint j)
               \<longrightarrow> sint i = Max (sint ` set (present_ids c s0)) + 1)
          \<and> (\<forall>j \<in> set (present_ids c s0). j <s i))
       \<and> sorted_wrt (<s) (assigned_user_ids (run_calls cs s))
       \<and> sorted_wrt (<s) (assigned_task_ids (run_calls cs s))"
proof -
  have entry: "fst (apply_call c s0) = i
          \<and> sint i = top_id (present_ids c s0) + 1
          \<and> (present_ids c s0 = [] \<longrightarrow> i = 1)
          \<and> ((\<exists>j \<in> set (present_ids c s0). 0 \<le> sint j)
               \<longrightarrow> sint i = Max (sint ` set (present_ids c s0)) + 1)
          \<and> (\<forall>j \<in> set (present_ids c s0). j <s i)"
    if mem: "(s0, c, i) \<in> set (run_calls cs s)" for s0 c i
  proof -
    from run_calls_entries [OF assms mem]
    have room: "top_id (present_ids c s0) < MaxInt"
      and ap: "apply_call c s0 = (i, snd (apply_call c s0))" by simp_all
    note st = apply_call_step [OF room ap]
    have a: "fst (apply_call c s0) = i" using ap by (metis fst_conv)
    have b: "sint i = top_id (present_ids c s0) + 1" by (rule st(1))
    have c: "i = 1" if "present_ids c s0 = []"
    proof -
      from b that have "sint i = sint (1::goint)" by (simp add: top_id_Nil)
      then show ?thesis by (rule signed_word_eqI)
    qed
    have d: "sint i = Max (sint ` set (present_ids c s0)) + 1"
      if "\<exists>j \<in> set (present_ids c s0). 0 \<le> sint j"
      using that b top_id_nonneg_Max by auto
    have e: "j <s i" if "j \<in> set (present_ids c s0)" for j
      using top_id_ge [OF that] b by (simp add: word_sless_alt)
    from a b c d e show ?thesis by blast
  qed
  from entry run_calls_sorted [OF assms] show ?thesis by blast
qed

text \<open>The theorem at the seed data and three calls.\<close>

theorem create_ids_sequence_witness:
  "has_room [Call_CreateUser ''Ann'' ''ann@example.com'' ''dev'',
             Call_CreateTask ''Write'' ''pending'' 1,
             Call_CreateUser ''Bo'' ''bo@example.com'' ''ops''] defaultStore
   \<and> assigned_user_ids (run_calls [Call_CreateUser ''Ann'' ''ann@example.com'' ''dev'',
             Call_CreateTask ''Write'' ''pending'' 1,
             Call_CreateUser ''Bo'' ''bo@example.com'' ''ops''] defaultStore) = [4, 5]
   \<and> sorted_wrt (<s) (assigned_user_ids (run_calls [Call_CreateUser ''Ann'' ''ann@example.com'' ''dev'',
             Call_CreateTask ''Write'' ''pending'' 1,
             Call_CreateUser ''Bo'' ''bo@example.com'' ''ops''] defaultStore))
   \<and> fst (apply_call (Call_CreateUser ''Ann'' ''ann@example.com'' ''dev'') defaultStore) = 4
   \<and> sint (4 :: goint) = Max (sint ` set (present_ids (Call_CreateUser ''Ann'' ''ann@example.com'' ''dev'') defaultStore)) + 1
   \<and> fst (apply_call (Call_CreateUser ''Ann'' ''ann@example.com'' ''dev'') New) = 1"
proof -
  have h: "has_room [Call_CreateUser ''Ann'' ''ann@example.com'' ''dev'',
             Call_CreateTask ''Write'' ''pending'' 1,
             Call_CreateUser ''Bo'' ''bo@example.com'' ''ops''] defaultStore"
    by (simp add: has_room_def top_id_def defaultStore_def NewWithData_def MaxInt_def)
  have v: "assigned_user_ids (run_calls [Call_CreateUser ''Ann'' ''ann@example.com'' ''dev'',
             Call_CreateTask ''Write'' ''pending'' 1,
             Call_CreateUser ''Bo'' ''bo@example.com'' ''ops''] defaultStore) = [4, 5]"
    by (simp add: assigned_user_ids_def defaultStore_def NewWithData_def CreateUser_def
        CreateTask_def Let_def word_sless_alt)
  have m: "(defaultStore, Call_CreateUser ''Ann'' ''ann@example.com'' ''dev'', 4)
      \<in> set (run_calls [Call_CreateUser ''Ann'' ''ann@example.com'' ''dev'',
             Call_CreateTask ''Write'' ''pending'' 1,
             Call_CreateUser ''Bo'' ''bo@example.com'' ''ops''] defaultStore)"
    by (simp add: defaultStore_def NewWithData_def CreateUser_def Let_def word_sless_alt
        split: prod.splits)
  have p: "\<exists>j \<in> set (present_ids (Call_CreateUser ''Ann'' ''ann@example.com'' ''dev'') defaultStore). 0 \<le> sint j"
    by (simp add: defaultStore_def NewWithData_def)
  have e: "fst (apply_call (Call_CreateUser ''Ann'' ''ann@example.com'' ''dev'') defaultStore) = 4
     \<and> sint (4 :: goint) = Max (sint ` set (present_ids (Call_CreateUser ''Ann'' ''ann@example.com'' ''dev'') defaultStore)) + 1"
    using create_ids_sequence [OF h, THEN conjunct1, THEN bspec, OF m] p by simp
  have h0: "has_room [Call_CreateUser ''Ann'' ''ann@example.com'' ''dev''] New"
    by (simp add: has_room_def top_id_def New_def MaxInt_def)
  have m0: "(New, Call_CreateUser ''Ann'' ''ann@example.com'' ''dev'', 1)
      \<in> set (run_calls [Call_CreateUser ''Ann'' ''ann@example.com'' ''dev''] New)"
    by (simp add: New_def CreateUser_def Let_def)
  have e0: "fst (apply_call (Call_CreateUser ''Ann'' ''ann@example.com'' ''dev'') New) = 1"
    using create_ids_sequence [OF h0, THEN conjunct1, THEN bspec, OF m0] by simp
  from create_ids_sequence [OF h] h v e e0 show ?thesis by blast
qed

text \<open>
  Without the proviso the claim fails. On a collection that holds the largest \<open>int\<close>,
  \<open>maxID + 1\<close> wraps around to the smallest one: the identifier assigned is below the one
  present, and the next call assigns it again. On a collection whose identifiers are all
  negative the loop's starting value 0 wins and the call assigns 1, not the maximum plus
  one.
\<close>

theorem create_ids_counterexample:
  "assigned_user_ids
     (run_calls [Call_CreateUser ''a'' ''a@x.com'' ''dev'', Call_CreateUser ''b'' ''b@x.com'' ''dev'']
        (NewWithData [\<lparr>User.ID = 9223372036854775807, Name = ''z'', Email = ''z@x.com'', Role = ''dev''\<rparr>] []))
     = [- 9223372036854775808, - 9223372036854775808]
   \<and> (- 9223372036854775808 :: goint) <s 9223372036854775807
   \<and> fst (apply_call (Call_CreateUser ''a'' ''a@x.com'' ''dev'')
        (NewWithData [\<lparr>User.ID = - 5, Name = ''z'', Email = ''z@x.com'', Role = ''dev''\<rparr>] [])) = 1
   \<and> sint (1 :: goint) \<noteq> sint (- 5 :: goint) + 1"
  by (simp add: assigned_user_ids_def NewWithData_def CreateUser_def Let_def word_sless_alt)


section \<open>Updating a task\<close>

lemma index_where_Some:
  "index_where p k xs = Some i \<Longrightarrow>
     k \<le> i \<and> i - k < length xs \<and> p (xs ! (i - k)) \<and> (\<forall>j < i - k. \<not> p (xs ! j))"
proof (induction xs arbitrary: k)
  case Nil
  then show ?case by simp
next
  case (Cons x xs)
  show ?case
  proof (cases "p x")
    case True
    with Cons.prems show ?thesis by simp
  next
    case False
    with Cons.prems have "index_where p (Suc k) xs = Some i" by simp
    from Cons.IH [OF this]
    have ih: "Suc k \<le> i" "i - Suc k < length xs" "p (xs ! (i - Suc k))"
      "\<forall>j < i - Suc k. \<not> p (xs ! j)" by simp_all
    from ih(1) have eq: "i - k = Suc (i - Suc k)" by simp
    have "\<not> p ((x # xs) ! j)" if "j < i - k" for j
      using that False ih(4) eq by (cases j) simp_all
    with ih eq show ?thesis by simp
  qed
qed

lemma index_where_None: "index_where p k xs = None \<longleftrightarrow> (\<forall>x \<in> set xs. \<not> p x)"
  by (induction xs arbitrary: k) simp_all

lemma index_where_first:
  assumes "index_where p 0 xs = Some i"
  shows "i < length xs" and "p (xs ! i)" and "\<forall>j < i. \<not> p (xs ! j)"
  using index_where_Some [OF assms] by simp_all

lemma index_where_present:
  assumes "x \<in> set xs" and "p x"
  shows "\<exists>i. index_where p 0 xs = Some i"
proof (cases "index_where p 0 xs")
  case None
  with assms show ?thesis by (simp add: index_where_None)
next
  case (Some i)
  then show ?thesis by simp
qed

text \<open>
  Claim C3. For every store and every identifier of one of its tasks, \<open>UpdateTask\<close> works
  on the first task with that identifier: the task returned is that task with exactly the
  supplied fields overwritten and every other field, the identifier included, as before,
  and it is the task the store then holds at that place.
\<close>

theorem update_task_existing:
  assumes "id' \<in> Task.ID ` set (tasks s)"
  shows "\<exists>i. i < length (tasks s) \<and> Task.ID (tasks s ! i) = id'
           \<and> (\<forall>j < i. Task.ID (tasks s ! j) \<noteq> id')
           \<and> fst (UpdateTask id' title status userID s) =
               Some \<lparr>Task.ID = id',
                     Title = (case title of None \<Rightarrow> Title (tasks s ! i) | Some v \<Rightarrow> v),
                     Status = (case status of None \<Rightarrow> Status (tasks s ! i) | Some v \<Rightarrow> v),
                     UserID = (case userID of None \<Rightarrow> UserID (tasks s ! i) | Some v \<Rightarrow> v)\<rparr>
           \<and> Some (tasks (fst (snd (UpdateTask id' title status userID s))) ! i) =
               fst (UpdateTask id' title status userID s)"
proof -
  from assms obtain t where "t \<in> set (tasks s)" "Task.ID t = id'" by auto
  then obtain i where ix: "index_where (\<lambda>t. Task.ID t = id') 0 (tasks s) = Some i"
    using index_where_present [of t "tasks s" "\<lambda>t. Task.ID t = id'"] by auto
  note fs = index_where_first [OF ix]
  have ret: "fst (UpdateTask id' title status userID s) =
               Some \<lparr>Task.ID = id',
                     Title = (case title of None \<Rightarrow> Title (tasks s ! i) | Some v \<Rightarrow> v),
                     Status = (case status of None \<Rightarrow> Status (tasks s ! i) | Some v \<Rightarrow> v),
                     UserID = (case userID of None \<Rightarrow> UserID (tasks s ! i) | Some v \<Rightarrow> v)\<rparr>"
    using ix fs(2) by (simp add: UpdateTask_def Let_def split: option.splits)
  have held: "Some (tasks (fst (snd (UpdateTask id' title status userID s))) ! i) =
               fst (UpdateTask id' title status userID s)"
    using ix fs(1) by (simp add: UpdateTask_def Let_def)
  from fs ret held show ?thesis by blast
qed

theorem update_task_existing_witness:
  "2 \<in> Task.ID ` set (tasks defaultStore)
   \<and> fst (UpdateTask 2 (Some ''Draw'') None (Some 3) defaultStore) =
       Some \<lparr>Task.ID = 2, Title = ''Draw'', Status = ''in-progress'', UserID = 3\<rparr>"
proof -
  have h: "2 \<in> Task.ID ` set (tasks defaultStore)"
    by (simp add: defaultStore_def NewWithData_def)
  have v: "fst (UpdateTask 2 (Some ''Draw'') None (Some 3) defaultStore) =
       Some \<lparr>Task.ID = 2, Title = ''Draw'', Status = ''in-progress'', UserID = 3\<rparr>"
    by (simp add: UpdateTask_def defaultStore_def NewWithData_def Let_def)
  from update_task_existing [OF h, of "Some ''Draw''" None "Some 3"] h v show ?thesis by blast
qed

text \<open>
  Claim C6. For every store and every identifier that none of its tasks has,
  \<open>UpdateTask\<close> returns \<open>nil\<close>, leaves the store (users and tasks) as it is and starts
  no \<open>persistAsync\<close>.
\<close>

theorem update_task_missing:
  assumes "id' \<notin> Task.ID ` set (tasks s)"
  shows "UpdateTask id' title status userID s = (None, s, [])"
proof -
  from assms have "\<forall>t \<in> set (tasks s). \<not> Task.ID t = id'" by auto
  then have "index_where (\<lambda>t. Task.ID t = id') 0 (tasks s) = None"
    by (simp add: index_where_None)
  then show ?thesis by (simp add: UpdateTask_def)
qed

theorem update_task_missing_witness:
  "999 \<notin> Task.ID ` set (tasks defaultStore)
   \<and> UpdateTask 999 (Some ''Updated'') None None defaultStore = (None, defaultStore, [])"
proof -
  have h: "999 \<notin> Task.ID ` set (tasks defaultStore)"
    by (simp add: defaultStore_def NewWithData_def)
  from update_task_missing [OF h, of "Some ''Updated''" None None] h show ?thesis by blast
qed

section \<open>What a mutation leaves alone\<close>

lemma UpdateTask_frame:
  "users (fst (snd (UpdateTask id' title status userID s))) = users s
   \<and> length (tasks (fst (snd (UpdateTask id' title status userID s)))) = length (tasks s)
   \<and> (\<forall>j < length (tasks s). Task.ID (tasks s ! j) \<noteq> id' \<longrightarrow>
         tasks (fst (snd (UpdateTask id' title status userID s))) ! j = tasks s ! j)"
proof (cases "index_where (\<lambda>t. Task.ID t = id') 0 (tasks s)")
  case None
  then show ?thesis by (simp add: UpdateTask_def)
next
  case (Some i)
  note fs = index_where_first [OF Some]
  have "(tasks s)[i := t] ! j = tasks s ! j" if "Task.ID (tasks s ! j) \<noteq> id'" for j t
  proof -
    from that fs(2) have "j \<noteq> i" by auto
    then show ?thesis by simp
  qed
  with Some show ?thesis by (simp add: UpdateTask_def Let_def)
qed

text \<open>
  Claim C10. \<open>CreateUser\<close> appends exactly the user it returns and leaves the tasks as they
  are; \<open>CreateTask\<close> appends exactly the task it returns and leaves the users as they are;
  \<open>UpdateTask\<close> leaves the users, the number of tasks and every task with another
  identifier as they are.
\<close>

theorem mutations_frame:
  "users (fst (snd (CreateUser name email role s))) = users s @ [fst (CreateUser name email role s)]
   \<and> tasks (fst (snd (CreateUser name email role s))) = tasks s
   \<and> tasks (fst (snd (CreateTask title' status' userID' s))) = tasks s @ [fst (CreateTask title' status' userID' s)]
   \<and> users (fst (snd (CreateTask title' status' userID' s))) = users s
   \<and> users (fst (snd (UpdateTask id' title status userID s))) = users s
   \<and> length (tasks (fst (snd (UpdateTask id' title status userID s)))) = length (tasks s)
   \<and> (\<forall>j < length (tasks s). Task.ID (tasks s ! j) \<noteq> id' \<longrightarrow>
         tasks (fst (snd (UpdateTask id' title status userID s))) ! j = tasks s ! j)"
proof -
  have cu: "users (fst (snd (CreateUser name email role s))) = users s @ [fst (CreateUser name email role s)]
     \<and> tasks (fst (snd (CreateUser name email role s))) = tasks s"
    by (simp add: CreateUser_def Let_def)
  have ct: "tasks (fst (snd (CreateTask title' status' userID' s))) = tasks s @ [fst (CreateTask title' status' userID' s)]
     \<and> users (fst (snd (CreateTask title' status' userID' s))) = users s"
    by (simp add: CreateTask_def Let_def)
  from cu ct UpdateTask_frame [of id' title status userID s] show ?thesis by blast
qed

theorem mutations_frame_witness:
  "tasks (fst (snd (UpdateTask 2 (Some ''Draw'') None None defaultStore))) ! 0 = tasks defaultStore ! 0
   \<and> users (fst (snd (CreateUser ''Ann'' ''ann@example.com'' ''dev'' defaultStore))) =
       users defaultStore @ [\<lparr>User.ID = 4, Name = ''Ann'', Email = ''ann@example.com'', Role = ''dev''\<rparr>]"
proof -
  have a: "(0::nat) < length (tasks defaultStore)" "Task.ID (tasks defaultStore ! 0) \<noteq> 2"
    by (simp_all add: defaultStore_def NewWithData_def)
  have b: "fst (CreateUser ''Ann'' ''ann@example.com'' ''dev'' defaultStore) =
       \<lparr>User.ID = 4, Name = ''Ann'', Email = ''ann@example.com'', Role = ''dev''\<rparr>"
    by (simp add: CreateUser_def defaultStore_def NewWithData_def Let_def word_sless_alt)
  from mutations_frame [of "''Ann''" "''ann@example.com''" "''dev''" defaultStore
      "''x''" "''pending''" 1 2 "Some ''Draw''" None None] a b
  show ?thesis by simp
qed


section \<open>Listing tasks\<close>

lemma GetTasks_loop_filter:
  "GetTasks_loop status userID acc ts =
     acc @ filter (\<lambda>t. matches_status status t \<and> matches_userID userID t) ts"
proof (induction ts arbitrary: acc)
  case Nil
  show ?case by simp
next
  case (Cons t ts)
  show ?case
    by (cases "Atoi userID")
       (auto simp: Cons.IH matches_status_def matches_userID_def Let_def)
qed

text \<open>
  Claim C4. For every store, \<open>GetTasks\<close> returns, in the store's order, exactly the tasks
  that match the status filter and the user-id filter; an empty filter matches every task;
  a user-id filter that is not empty and does not parse as an integer matches no task, so
  the result is empty whatever the status filter.
\<close>

theorem get_tasks_filters:
  "GetTasks status userID s =
     filter (\<lambda>t. matches_status status t \<and> matches_userID userID t) (tasks s)
   \<and> matches_status [] t \<and> matches_userID [] t
   \<and> (userID \<noteq> [] \<and> Atoi userID = None \<longrightarrow>
        \<not> matches_userID userID t \<and> GetTasks status userID s = [])"
proof -
  have eq: "GetTasks status userID s =
     filter (\<lambda>t. matches_status status t \<and> matches_userID userID t) (tasks s)"
    by (simp add: GetTasks_def GetTasks_loop_filter)
  have none: "\<not> matches_userID userID t \<and> GetTasks status userID s = []"
    if "userID \<noteq> []" "Atoi userID = None"
    using that by (simp add: eq matches_userID_def)
  from eq none show ?thesis by (simp add: matches_status_def matches_userID_def)
qed

lemma Atoi_abc: "Atoi ''abc'' = None"
  by (simp add: Atoi_def is_digit_def)

lemma Atoi_1: "Atoi ''1'' = Some 1"
  by (simp add: Atoi_def is_digit_def)

theorem get_tasks_filters_witness:
  "''abc'' \<noteq> [] \<and> Atoi ''abc'' = None \<and> GetTasks ''pending'' ''abc'' defaultStore = []
   \<and> GetTasks ''pending'' ''1'' defaultStore =
       [\<lparr>Task.ID = 1, Title = ''Implement authentication'', Status = ''pending'', UserID = 1\<rparr>]"
proof -
  have v: "GetTasks ''pending'' ''1'' defaultStore =
       [\<lparr>Task.ID = 1, Title = ''Implement authentication'', Status = ''pending'', UserID = 1\<rparr>]"
    by (simp add: GetTasks_def defaultStore_def NewWithData_def Atoi_1)
  from get_tasks_filters [of "''pending''" "''abc''" defaultStore] Atoi_abc v
  show ?thesis by simp
qed

section \<open>Statistics\<close>

lemma GetStats_loop_counts:
  "GetStats_loop st ts =
     st\<lparr>Tasks_Pending := Tasks_Pending st + count_status ''pending'' ts,
        Tasks_InProgress := Tasks_InProgress st + count_status ''in-progress'' ts,
        Tasks_Completed := Tasks_Completed st + count_status ''completed'' ts\<rparr>"
proof (induction ts arbitrary: st)
  case Nil
  show ?case by (simp add: count_status_def)
next
  case (Cons t ts)
  show ?case by (simp add: Cons.IH count_status_def)
qed

lemma count_status_sum:
  "count_status ''pending'' ts + count_status ''in-progress'' ts + count_status ''completed'' ts
     = int (length (filter (\<lambda>t. valid_status (Status t)) ts))"
  by (induction ts) (auto simp: count_status_def valid_status_def)

lemma length_filter_eq_iff: "length (filter P xs) = length xs \<longleftrightarrow> (\<forall>x \<in> set xs. P x)"
proof
  assume eq: "length (filter P xs) = length xs"
  show "\<forall>x \<in> set xs. P x"
  proof (rule ccontr)
    assume "\<not> (\<forall>x \<in> set xs. P x)"
    then obtain x where "x \<in> set xs" "\<not> P x" by blast
    then have "length (filter P xs) < length xs" by (rule length_filter_less)
    with eq show False by simp
  qed
next
  assume "\<forall>x \<in> set xs. P x"
  then show "length (filter P xs) = length xs" by simp
qed

text \<open>
  Claim C9. For every store, \<open>GetStats\<close> reports the number of users, the number of
  tasks, and for each of the three statuses the number of tasks with exactly that status.
  A task with another status counts in the total only: the three counts add up to at most
  the total, and to the total exactly when every task has one of the three statuses.
\<close>

theorem get_stats_counts:
  "Users_Total (GetStats s) = int (length (users s))
   \<and> Tasks_Total (GetStats s) = int (length (tasks s))
   \<and> Tasks_Pending (GetStats s) = count_status ''pending'' (tasks s)
   \<and> Tasks_InProgress (GetStats s) = count_status ''in-progress'' (tasks s)
   \<and> Tasks_Completed (GetStats s) = count_status ''completed'' (tasks s)
   \<and> Tasks_Pending (GetStats s) + Tasks_InProgress (GetStats s) + Tasks_Completed (GetStats s)
       = Tasks_Total (GetStats s) - int (length (filter (\<lambda>t. \<not> valid_status (Status t)) (tasks s)))
   \<and> Tasks_Pending (GetStats s) + Tasks_InProgress (GetStats s) + Tasks_Completed (GetStats s)
       \<le> Tasks_Total (GetStats s)
   \<and> (Tasks_Pending (GetStats s) + Tasks_InProgress (GetStats s) + Tasks_Completed (GetStats s)
       = Tasks_Total (GetStats s) \<longleftrightarrow> (\<forall>t \<in> set (tasks s). valid_status (Status t)))"
proof -
  have f: "Users_Total (GetStats s) = int (length (users s))"
    "Tasks_Total (GetStats s) = int (length (tasks s))"
    "Tasks_Pending (GetStats s) = count_status ''pending'' (tasks s)"
    "Tasks_InProgress (GetStats s) = count_status ''in-progress'' (tasks s)"
    "Tasks_Completed (GetStats s) = count_status ''completed'' (tasks s)"
    by (simp_all add: GetStats_def GetStats_loop_counts)
  have sm: "Tasks_Pending (GetStats s) + Tasks_InProgress (GetStats s) + Tasks_Completed (GetStats s)
      = int (length (filter (\<lambda>t. valid_status (Status t)) (tasks s)))"
    by (simp only: f count_status_sum)
  have split: "length (tasks s) = length (filter (\<lambda>t. valid_status (Status t)) (tasks s))
      + length (filter (\<lambda>t. \<not> valid_status (Status t)) (tasks s))"
    by (rule sum_length_filter_compl [symmetric])
  have le: "length (filter (\<lambda>t. valid_status (Status t)) (tasks s)) \<le> length (tasks s)"
    by simp
  have iff: "int (length (filter (\<lambda>t. valid_status (Status t)) (tasks s))) = int (length (tasks s))
      \<longleftrightarrow> (\<forall>t \<in> set (tasks s). valid_status (Status t))"
    using length_filter_eq_iff [of "\<lambda>t. valid_status (Status t)" "tasks s"] by simp
  have diff: "int (length (filter (\<lambda>t. valid_status (Status t)) (tasks s)))
     = int (length (tasks s)) - int (length (filter (\<lambda>t. \<not> valid_status (Status t)) (tasks s)))"
    using split by linarith
  show ?thesis
    using f(1,2,3,4,5) le iff diff unfolding sm f(2) by simp
qed

theorem get_stats_counts_witness:
  "GetStats (NewWithData
      [\<lparr>User.ID = 1, Name = ''John Doe'', Email = ''john@example.com'', Role = ''developer''\<rparr>,
       \<lparr>User.ID = 2, Name = ''Jane Smith'', Email = ''jane@example.com'', Role = ''designer''\<rparr>]
      [\<lparr>Task.ID = 1, Title = ''Test task 1'', Status = ''pending'', UserID = 1\<rparr>,
       \<lparr>Task.ID = 2, Title = ''Test task 2'', Status = ''archived'', UserID = 2\<rparr>])
    = \<lparr>Users_Total = 2, Tasks_Total = 2, Tasks_Pending = 1, Tasks_InProgress = 0, Tasks_Completed = 0\<rparr>
   \<and> \<not> valid_status ''archived''"
proof -
  have v: "GetStats (NewWithData
      [\<lparr>User.ID = 1, Name = ''John Doe'', Email = ''john@example.com'', Role = ''developer''\<rparr>,
       \<lparr>User.ID = 2, Name = ''Jane Smith'', Email = ''jane@example.com'', Role = ''designer''\<rparr>]
      [\<lparr>Task.ID = 1, Title = ''Test task 1'', Status = ''pending'', UserID = 1\<rparr>,
       \<lparr>Task.ID = 2, Title = ''Test task 2'', Status = ''archived'', UserID = 2\<rparr>])
    = \<lparr>Users_Total = 2, Tasks_Total = 2, Tasks_Pending = 1, Tasks_InProgress = 0, Tasks_Completed = 0\<rparr>"
    by (simp add: GetStats_def NewWithData_def)
  have n: "\<not> valid_status ''archived''" by (simp add: valid_status_def)
  from get_stats_counts [of "NewWithData
      [\<lparr>User.ID = 1, Name = ''John Doe'', Email = ''john@example.com'', Role = ''developer''\<rparr>,
       \<lparr>User.ID = 2, Name = ''Jane Smith'', Email = ''jane@example.com'', Role = ''designer''\<rparr>]
      [\<lparr>Task.ID = 1, Title = ''Test task 1'', Status = ''pending'', UserID = 1\<rparr>,
       \<lparr>Task.ID = 2, Title = ''Test task 2'', Status = ''archived'', UserID = 2\<rparr>]"] v n
  show ?thesis by simp
qed


section \<open>Start-up\<close>

lemma defaultStore_sizes: "length (users defaultStore) = 3 \<and> length (tasks defaultStore) = 3"
  by (simp add: defaultStore_def NewWithData_def)

text \<open>
  Claim C7. At start-up, if loading fails, or yields no users and no tasks, the store is the
  seed data set, which has exactly 3 users and 3 tasks; a file that does not exist loads as
  the empty result and so gives the seed data; otherwise the store holds exactly the users
  and tasks loaded.
\<close>

theorem initialize_seed_or_loaded:
  "(case LoadData unmarshal fv of
      Inl err \<Rightarrow> Initialize unmarshal fv = defaultStore
    | Inr pd \<Rightarrow>
        if Users pd = [] \<and> Tasks pd = [] then Initialize unmarshal fv = defaultStore
        else users (Initialize unmarshal fv) = Users pd \<and> tasks (Initialize unmarshal fv) = Tasks pd)
   \<and> (stat_not_exist fv \<longrightarrow>
        LoadData unmarshal fv = Inr \<lparr>Users = [], Tasks = []\<rparr> \<and> Initialize unmarshal fv = defaultStore)
   \<and> length (users defaultStore) = 3 \<and> length (tasks defaultStore) = 3"
proof -
  have a: "(case LoadData unmarshal fv of
      Inl err \<Rightarrow> Initialize unmarshal fv = defaultStore
    | Inr pd \<Rightarrow>
        if Users pd = [] \<and> Tasks pd = [] then Initialize unmarshal fv = defaultStore
        else users (Initialize unmarshal fv) = Users pd \<and> tasks (Initialize unmarshal fv) = Tasks pd)"
    by (simp add: Initialize_def NewWithData_def split: sum.splits)
  have b: "LoadData unmarshal fv = Inr \<lparr>Users = [], Tasks = []\<rparr> \<and> Initialize unmarshal fv = defaultStore"
    if "stat_not_exist fv"
    using that by (simp add: Initialize_def LoadData_def)
  from a b defaultStore_sizes show ?thesis by blast
qed

theorem initialize_seed_or_loaded_witness:
  "stat_not_exist \<lparr>stat_not_exist = True, read_file = None\<rparr>
   \<and> Initialize (\<lambda>d. None) \<lparr>stat_not_exist = True, read_file = None\<rparr> = defaultStore
   \<and> Initialize (\<lambda>d. None) \<lparr>stat_not_exist = False, read_file = Some ''{''\<rparr> = defaultStore
   \<and> users (Initialize (\<lambda>d. Some \<lparr>Users = [\<lparr>User.ID = 7, Name = ''Eve'', Email = ''eve@example.com'', Role = ''qa''\<rparr>], Tasks = []\<rparr>)
        \<lparr>stat_not_exist = False, read_file = Some ''{}''\<rparr>)
       = [\<lparr>User.ID = 7, Name = ''Eve'', Email = ''eve@example.com'', Role = ''qa''\<rparr>]"
proof -
  have l2: "LoadData (\<lambda>d. None) \<lparr>stat_not_exist = False, read_file = Some ''{''\<rparr> = Inl ParseFailed"
    by (simp add: LoadData_def)
  have l3: "LoadData (\<lambda>d. Some \<lparr>Users = [\<lparr>User.ID = 7, Name = ''Eve'', Email = ''eve@example.com'', Role = ''qa''\<rparr>], Tasks = []\<rparr>)
        \<lparr>stat_not_exist = False, read_file = Some ''{}''\<rparr>
      = Inr \<lparr>Users = [\<lparr>User.ID = 7, Name = ''Eve'', Email = ''eve@example.com'', Role = ''qa''\<rparr>], Tasks = []\<rparr>"
    by (simp add: LoadData_def)
  from initialize_seed_or_loaded [of "\<lambda>d. None" "\<lparr>stat_not_exist = True, read_file = None\<rparr>"]
    initialize_seed_or_loaded [of "\<lambda>d. None" "\<lparr>stat_not_exist = False, read_file = Some ''{''\<rparr>"]
    initialize_seed_or_loaded [of "\<lambda>d. Some \<lparr>Users = [\<lparr>User.ID = 7, Name = ''Eve'', Email = ''eve@example.com'', Role = ''qa''\<rparr>], Tasks = []\<rparr>"
       "\<lparr>stat_not_exist = False, read_file = Some ''{}''\<rparr>"]
    l2 l3
  show ?thesis by simp
qed

section \<open>Saving under the read lock\<close>

lemma SaveData_no_lock_events:
  "RLock \<notin> set (snd (SaveData oc data)) \<and> RUnlock \<notin> set (snd (SaveData oc data))"
  by (simp add: SaveData_def)

lemma io_only_locked_SaveData:
  "io_only_locked (Suc 0) (snd (SaveData oc data) @ [RUnlock])"
  by (simp add: SaveData_def)

text \<open>
  Claim C2, as the code has it. \<open>Persist\<close> takes the read lock first and releases it last,
  when \<open>SaveData\<close> has returned, and releases nothing in between. So,
  whatever the outcome of the file operations, every one of them happens while the lock is
  held, and there is always at least one.
\<close>

theorem persist_io_under_lock:
  "snd (Persist oc s) = [RLock] @ snd (SaveData oc \<lparr>Users = users s, Tasks = tasks s\<rparr>) @ [RUnlock]
   \<and> RUnlock \<notin> set (snd (SaveData oc \<lparr>Users = users s, Tasks = tasks s\<rparr>))
   \<and> io_only_locked 0 (snd (Persist oc s))
   \<and> io_while_locked 0 (snd (Persist oc s))"
proof -
  have a: "snd (Persist oc s) = [RLock] @ snd (SaveData oc \<lparr>Users = users s, Tasks = tasks s\<rparr>) @ [RUnlock]"
    by (simp add: Persist_def Let_def split: prod.splits)
  have b: "io_only_locked 0 (snd (Persist oc s))"
    unfolding a using io_only_locked_SaveData by simp
  have c: "io_while_locked 0 (snd (Persist oc s))"
    unfolding a by (simp add: SaveData_def)
  from a b c SaveData_no_lock_events show ?thesis by blast
qed

theorem persist_io_under_lock_witness:
  "snd (Persist \<lparr>mkdir_ok = True, marshal_ok = True, write_ok = True, rename_ok = True\<rparr> New)
     = [RLock, MkdirAll, MarshalIndent \<lparr>Users = [], Tasks = []\<rparr>,
        WriteFile \<lparr>Users = [], Tasks = []\<rparr>, Rename, RUnlock]
   \<and> io_only_locked 0 (snd (Persist \<lparr>mkdir_ok = True, marshal_ok = True, write_ok = True, rename_ok = True\<rparr> New))"
proof -
  have v: "snd (Persist \<lparr>mkdir_ok = True, marshal_ok = True, write_ok = True, rename_ok = True\<rparr> New)
     = [RLock, MkdirAll, MarshalIndent \<lparr>Users = [], Tasks = []\<rparr>,
        WriteFile \<lparr>Users = [], Tasks = []\<rparr>, Rename, RUnlock]"
    by (simp add: Persist_def SaveData_def New_def Let_def)
  from persist_io_under_lock [of "\<lparr>mkdir_ok = True, marshal_ok = True, write_ok = True, rename_ok = True\<rparr>" New] v
  show ?thesis by simp
qed

text \<open>
  The claim as stated, that no file operation happens while the lock is held, fails on
  the empty store with every file operation succeeding; the same holds of the background
  task \<open>persistAsync\<close>.
\<close>

theorem persist_io_counterexample:
  "io_while_locked 0 (snd (Persist \<lparr>mkdir_ok = True, marshal_ok = True, write_ok = True, rename_ok = True\<rparr> New))
   \<and> io_while_locked 0 (persistAsync \<lparr>mkdir_ok = True, marshal_ok = True, write_ok = True, rename_ok = True\<rparr> New)"
  by (simp add: persistAsync_def Persist_def SaveData_def New_def Let_def)


section \<open>Returned references alias the store\<close>

lemma store_of_assign_user:
  "store_of (assign_user (Ptr (array (users_hdr r)) i) v h) r =
     (store_of h r)\<lparr>users := (users (store_of h r))[i := v]\<rparr>"
  by (simp add: store_of_def user_elems_def task_elems_def take_update_swap)

lemma store_of_assign_task:
  "store_of (assign_task (Ptr (array (tasks_hdr r)) i) w h) r =
     (store_of h r)\<lparr>tasks := (tasks (store_of h r))[i := w]\<rparr>"
  by (simp add: store_of_def user_elems_def task_elems_def take_update_swap)

lemma GetUserByID_Some:
  assumes "GetUserByID h r id' = Some p"
  shows "p = Ptr (array (users_hdr r)) (ptr_index p)"
    and "ptr_index p < length (users (store_of h r))"
    and "User.ID (users (store_of h r) ! ptr_index p) = id'"
proof -
  from assms obtain i where
    ix: "index_where (\<lambda>u. User.ID u = id') 0 (user_elems h (users_hdr r)) = Some i"
    and p: "p = Ptr (array (users_hdr r)) i"
    by (auto simp: GetUserByID_def split: option.splits)
  note fs = index_where_first [OF ix]
  show "p = Ptr (array (users_hdr r)) (ptr_index p)" using p by simp
  show "ptr_index p < length (users (store_of h r))" using p fs(1) by (simp add: store_of_def)
  show "User.ID (users (store_of h r) ! ptr_index p) = id'" using p fs(2) by (simp add: store_of_def)
qed

lemma GetTaskByID_Some:
  assumes "GetTaskByID h r id' = Some q"
  shows "q = Ptr (array (tasks_hdr r)) (ptr_index q)"
    and "ptr_index q < length (tasks (store_of h r))"
    and "Task.ID (tasks (store_of h r) ! ptr_index q) = id'"
proof -
  from assms obtain i where
    ix: "index_where (\<lambda>t. Task.ID t = id') 0 (task_elems h (tasks_hdr r)) = Some i"
    and q: "q = Ptr (array (tasks_hdr r)) i"
    by (auto simp: GetTaskByID_def split: option.splits)
  note fs = index_where_first [OF ix]
  show "q = Ptr (array (tasks_hdr r)) (ptr_index q)" using q by simp
  show "ptr_index q < length (tasks (store_of h r))" using q fs(1) by (simp add: store_of_def)
  show "Task.ID (tasks (store_of h r) ! ptr_index q) = id'" using q fs(2) by (simp add: store_of_def)
qed

text \<open>
  Claim C5, as the code has it. The read operations return references into the store's own
  backing arrays: \<open>GetUserByID\<close> and \<open>GetTaskByID\<close> a pointer to the element of the store
  with the identifier, \<open>GetUsers\<close> the store's slice. An assignment through a returned
  pointer, or to an element of the returned slice, replaces that element of the store and
  nothing else.
\<close>

theorem read_results_alias_store:
  "(GetUserByID h r id' = Some p \<longrightarrow>
      ptr_index p < length (users (store_of h r))
      \<and> User.ID (users (store_of h r) ! ptr_index p) = id'
      \<and> store_of (assign_user p v h) r =
          (store_of h r)\<lparr>users := (users (store_of h r))[ptr_index p := v]\<rparr>)
   \<and> (GetTaskByID h r id' = Some q \<longrightarrow>
      ptr_index q < length (tasks (store_of h r))
      \<and> Task.ID (tasks (store_of h r) ! ptr_index q) = id'
      \<and> store_of (assign_task q w h) r =
          (store_of h r)\<lparr>tasks := (tasks (store_of h r))[ptr_index q := w]\<rparr>)
   \<and> (i < len (GetUsers r) \<longrightarrow>
      (\<exists>h'. assign_user_elem (GetUsers r) i v h = Some h'
         \<and> store_of h' r = (store_of h r)\<lparr>users := (users (store_of h r))[i := v]\<rparr>))"
proof -
  have a: "ptr_index p < length (users (store_of h r))
      \<and> User.ID (users (store_of h r) ! ptr_index p) = id'
      \<and> store_of (assign_user p v h) r =
          (store_of h r)\<lparr>users := (users (store_of h r))[ptr_index p := v]\<rparr>"
    if g: "GetUserByID h r id' = Some p"
  proof -
    note f = GetUserByID_Some [OF g]
    have "store_of (assign_user p v h) r =
          (store_of h r)\<lparr>users := (users (store_of h r))[ptr_index p := v]\<rparr>"
      by (subst f(1)) (rule store_of_assign_user)
    with f(2,3) show ?thesis by simp
  qed
  have b: "ptr_index q < length (tasks (store_of h r))
      \<and> Task.ID (tasks (store_of h r) ! ptr_index q) = id'
      \<and> store_of (assign_task q w h) r =
          (store_of h r)\<lparr>tasks := (tasks (store_of h r))[ptr_index q := w]\<rparr>"
    if g: "GetTaskByID h r id' = Some q"
  proof -
    note f = GetTaskByID_Some [OF g]
    have "store_of (assign_task q w h) r =
          (store_of h r)\<lparr>tasks := (tasks (store_of h r))[ptr_index q := w]\<rparr>"
      by (subst f(1)) (rule store_of_assign_task)
    with f(2,3) show ?thesis by simp
  qed
  have c: "\<exists>h'. assign_user_elem (GetUsers r) i v h = Some h'
         \<and> store_of h' r = (store_of h r)\<lparr>users := (users (store_of h r))[i := v]\<rparr>"
    if "i < len (GetUsers r)"
    using that by (simp add: assign_user_elem_def GetUsers_def store_of_assign_user del: assign_user.simps)
  from a b c show ?thesis by blast
qed

lemma example_GetUserByID: "GetUserByID example_heap example_ref 1 = Some (Ptr 0 0)"
  by (simp add: GetUserByID_def example_heap_def example_ref_def user_elems_def)

lemma example_store_of:
  "store_of example_heap example_ref =
     \<lparr>users = [\<lparr>User.ID = 1, Name = ''John Doe'', Email = ''john@example.com'', Role = ''developer''\<rparr>],
      tasks = [\<lparr>Task.ID = 1, Title = ''Implement authentication'', Status = ''pending'', UserID = 1\<rparr>]\<rparr>"
  by (simp add: store_of_def example_heap_def example_ref_def user_elems_def task_elems_def)

lemma example_GetTaskByID: "GetTaskByID example_heap example_ref 1 = Some (Ptr 0 0)"
  by (simp add: GetTaskByID_def example_heap_def example_ref_def task_elems_def)

theorem read_results_alias_store_witness:
  "GetUserByID example_heap example_ref 1 = Some (Ptr 0 0)
   \<and> users (store_of (assign_user (Ptr 0 0)
        \<lparr>User.ID = 1, Name = ''Mallory'', Email = ''john@example.com'', Role = ''developer''\<rparr>
        example_heap) example_ref) =
      [\<lparr>User.ID = 1, Name = ''Mallory'', Email = ''john@example.com'', Role = ''developer''\<rparr>]
   \<and> GetTaskByID example_heap example_ref 1 = Some (Ptr 0 0)
   \<and> tasks (store_of (assign_task (Ptr 0 0)
        \<lparr>Task.ID = 1, Title = ''Nothing'', Status = ''completed'', UserID = 1\<rparr>
        example_heap) example_ref) =
      [\<lparr>Task.ID = 1, Title = ''Nothing'', Status = ''completed'', UserID = 1\<rparr>]
   \<and> 0 < len (GetUsers example_ref)
   \<and> (\<exists>h'. assign_user_elem (GetUsers example_ref) 0
          \<lparr>User.ID = 1, Name = ''Mallory'', Email = ''john@example.com'', Role = ''developer''\<rparr>
          example_heap = Some h'
        \<and> users (store_of h' example_ref) =
          [\<lparr>User.ID = 1, Name = ''Mallory'', Email = ''john@example.com'', Role = ''developer''\<rparr>])"
proof -
  have l: "0 < len (GetUsers example_ref)"
    by (simp add: GetUsers_def example_ref_def)
  from read_results_alias_store [of example_heap example_ref 1 "Ptr 0 0"
      "\<lparr>User.ID = 1, Name = ''Mallory'', Email = ''john@example.com'', Role = ''developer''\<rparr>"
      "Ptr 0 0" "\<lparr>Task.ID = 1, Title = ''Nothing'', Status = ''completed'', UserID = 1\<rparr>" 0]
    example_GetUserByID example_GetTaskByID l
  show ?thesis by (auto simp: example_store_of)
qed

text \<open>
  The claim as stated, that mutating a returned value never changes the store's state,
  fails: renaming the user through the pointer that \<open>GetUserByID\<close> returned changes the
  user the store holds.
\<close>

theorem read_results_counterexample:
  "GetUserByID example_heap example_ref 1 = Some (Ptr 0 0)
   \<and> store_of (assign_user (Ptr 0 0)
        \<lparr>User.ID = 1, Name = ''Mallory'', Email = ''john@example.com'', Role = ''developer''\<rparr>
        example_heap) example_ref
     \<noteq> store_of example_heap example_ref
   \<and> Name (users (store_of (assign_user (Ptr 0 0)
        \<lparr>User.ID = 1, Name = ''Mallory'', Email = ''john@example.com'', Role = ''developer''\<rparr>
        example_heap) example_ref) ! 0) = ''Mallory''"
  by (simp add: GetUserByID_def store_of_def example_heap_def example_ref_def user_elems_def
      task_elems_def)

section \<open>Cache round trip\<close>

lemma Cache_Get_Set:
  "fst (Cache_Get t k (Cache_Set t0 k v c)) =
     (if t0 + ttl c < t then (None, False) else (Some v, True))"
  by (simp add: Cache_Get_def Cache_Set_def)

lemma Cache_Get_answer:
  "fst (Cache_Get t k c) =
     (case entries c k of
        None \<Rightarrow> (None, False)
      | Some e \<Rightarrow> if ExpiresAt e < t then (None, False) else (Some (Data e), True))"
  by (simp add: Cache_Get_def split: option.splits)

lemma cleanupExpired_answer:
  assumes "\<forall>t1 \<in> set ticks. t1 \<le> t"
  shows "fst (Cache_Get t k (cleanupExpired ticks c)) = fst (Cache_Get t k c)"
  using assms
proof (induction ticks arbitrary: c)
  case Nil
  show ?case by simp
next
  case (Cons t1 ticks)
  from Cons.prems have le: "t1 \<le> t" and rest: "\<forall>t2 \<in> set ticks. t2 \<le> t" by simp_all
  have "fst (Cache_Get t k (cleanupExpired (t1 # ticks) c)) =
        fst (Cache_Get t k (c\<lparr>entries := (\<lambda>key. case entries c key of
                               None \<Rightarrow> None
                             | Some entry \<Rightarrow>
                                 if t1 > ExpiresAt entry then None else Some entry)\<rparr>))"
    using Cons.IH [OF rest] by simp
  also have "\<dots> = fst (Cache_Get t k c)"
    using le by (auto simp: Cache_Get_answer split: option.splits)
  finally show ?case .
qed

text \<open>
  Claim C8. For every cache, key and value, \<open>Set\<close> at time \<open>t0\<close> followed directly by \<open>Get\<close>
  at time \<open>t\<close> returns the value and \<open>true\<close> as long as less than the TTL has elapsed, and
  \<open>nil\<close> and \<open>false\<close> once more than the TTL has elapsed. The miss does not need the
  sweep: the answers are those of \<open>Get\<close> with no sweep in between, and sweeps in between,
  at times not after the \<open>Get\<close>, change neither.
\<close>

theorem cache_set_get:
  "(t - t0 < ttl c \<longrightarrow> fst (Cache_Get t k (Cache_Set t0 k v c)) = (Some v, True))
   \<and> (ttl c < t - t0 \<longrightarrow> fst (Cache_Get t k (Cache_Set t0 k v c)) = (None, False))
   \<and> ((\<forall>t1 \<in> set ticks. t1 \<le> t) \<longrightarrow>
        fst (Cache_Get t k (cleanupExpired ticks (Cache_Set t0 k v c)))
          = fst (Cache_Get t k (Cache_Set t0 k v c)))"
proof -
  have hit: "fst (Cache_Get t k (Cache_Set t0 k v c)) = (Some v, True)" if "t - t0 < ttl c"
  proof -
    from that have "\<not> t0 + ttl c < t" by simp
    then show ?thesis by (simp add: Cache_Get_Set)
  qed
  have miss: "fst (Cache_Get t k (Cache_Set t0 k v c)) = (None, False)" if "ttl c < t - t0"
  proof -
    from that have "t0 + ttl c < t" by simp
    then show ?thesis by (simp add: Cache_Get_Set)
  qed
  from hit miss cleanupExpired_answer [of ticks t k "Cache_Set t0 k v c"]
  show ?thesis by blast
qed

theorem cache_set_get_witness:
  "(299000000000::int) - 0 < ttl (fst (Cache_New 300000000000 :: string Cache \<times> cache_effect list))
   \<and> fst (Cache_Get 299000000000 ''users'' (Cache_Set 0 ''users'' ''v'' (fst (Cache_New 300000000000))))
       = (Some ''v'', True)
   \<and> ttl (fst (Cache_New 300000000000 :: string Cache \<times> cache_effect list)) < 301000000000 - 0
   \<and> fst (Cache_Get 301000000000 ''users'' (Cache_Set 0 ''users'' ''v'' (fst (Cache_New 300000000000))))
       = (None, False)
   \<and> fst (Cache_Get 301000000000 ''users''
        (cleanupExpired [60000000000, 120000000000] (Cache_Set 0 ''users'' ''v'' (fst (Cache_New 300000000000)))))
       = (None, False)"
proof -
  have t: "ttl (fst (Cache_New 300000000000 :: string Cache \<times> cache_effect list)) = 300000000000"
    by (simp add: Cache_New_def)
  from cache_set_get [of 299000000000 0 "fst (Cache_New 300000000000 :: string Cache \<times> cache_effect list)"
      "''users''" "''v''" "[]"]
    cache_set_get [of 301000000000 0 "fst (Cache_New 300000000000 :: string Cache \<times> cache_effect list)"
      "''users''" "''v''" "[60000000000, 120000000000]"]
  show ?thesis by (simp add: t)
qed

end
